theory Spec2Isabelle
  imports Complex_Main "HOL-Library.Word"
begin

section \<open>Data model of \<^verbatim>\<open>compress.py\<close>\<close>

text \<open>
  The program lowers a JPEG quality setting and, when that is not enough, shrinks the
  picture until the encoded bytes fit a target size. Everything it does to pixels goes
  through the Pillow library, and everything it does to files goes through
  \<^verbatim>\<open>pathlib\<close>. Neither library is part of the program, so the model takes Pillow
  as a record of functions and the file system as a finite map from paths to contents.
\<close>

type_synonym path = string
type_synonym bytes = "8 word list"
type_synonym fs = "path \<rightharpoonup> bytes"

text \<open>Exceptions that the program raises itself or that reach it from a library call.\<close>

datatype error =
  FileNotFoundError
| NotADirectoryError
| UnidentifiedImageError
| OSError
| ValueError

text \<open>
  The \<^verbatim>\<open>note\<close> of a result (here \<open>res_note\<close>) is a Python string. The program only ever tests it for
  emptiness and builds it from five fixed message texts, so each text is a constructor:
  \<^item> \<open>Empty\<close> is the empty string, the only falsy value;
  \<^item> \<open>CannotCompressFurther\<close> is the literal assigned when the resize has no effect;
  \<^item> \<open>StillOverTarget\<close> is the literal assigned when the written file is too large;
  \<^item> \<open>WithFinalSize n k\<close> is the f-string that appends the final size \<open>k\<close> to \<open>n\<close>;
  \<^item> \<open>FormatConverted f\<close> is the f-string that reports the conversion from format \<open>f\<close>;
  \<^item> \<open>UnknownProblem\<close> is the literal of the result returned without a buffer.
  All but \<open>Empty\<close> are non-empty strings, hence truthy.
\<close>

datatype note_str =
  Empty
| CannotCompressFurther
| StillOverTarget
| WithFinalSize note_str int
| FormatConverted string
| UnknownProblem

record CompressResult =
  path :: path
  original_size :: int
  final_size :: int
  succeeded :: bool
  res_note :: note_str

text \<open>The keyword arguments that \<^verbatim>\<open>_save_to_buffer\<close> hands to \<^verbatim>\<open>Image.save\<close>.\<close>

record save_kwargs =
  kw_format :: string
  kw_quality :: int
  kw_optimize :: bool
  kw_progressive :: bool

text \<open>
  Pillow, as far as the program uses it. \<open>pil_open\<close> stands for
  \<^verbatim>\<open>Image.open\<close> followed by \<^verbatim>\<open>convert("RGB")\<close>: from the bytes of a file it
  gives the \<^verbatim>\<open>format\<close> attribute (which may be \<^verbatim>\<open>None\<close>) and the converted
  picture, or raises. \<open>pil_size\<close> is the \<^verbatim>\<open>size\<close> attribute, \<open>pil_save\<close> is
  \<^verbatim>\<open>Image.save\<close> into a fresh buffer and \<open>pil_resize\<close> is \<^verbatim>\<open>Image.resize\<close>
  with the Lanczos filter.
\<close>

record 'img pil =
  pil_open :: "bytes \<Rightarrow> error + (string option \<times> 'img)"
  pil_size :: "'img \<Rightarrow> int \<times> int"
  pil_save :: "'img \<Rightarrow> save_kwargs \<Rightarrow> error + bytes"
  pil_resize :: "'img \<Rightarrow> int \<times> int \<Rightarrow> error + 'img"

text \<open>The local variables of \<^verbatim>\<open>_compress_image\<close> that the loop reads and writes.\<close>

record 'img loop_state =
  working_img :: 'img
  quality :: int
  width :: int
  height :: int
  last_buffer :: "bytes option"
  loop_note :: note_str

text \<open>What one pass through the body of \<^verbatim>\<open>while True\<close> ends in.\<close>

datatype 'img outcome =
  Break "'img loop_state"
| Continue "'img loop_state"
| Raise error

text \<open>
  A directory argument of \<^verbatim>\<open>compress_directory\<close>: the path does not exist, it is
  not a directory, or it is one, and then \<^verbatim>\<open>_iter_image_files\<close> lists its picture
  files, depending on the \<^verbatim>\<open>recursive\<close> flag.
\<close>

datatype dir_entry =
  Absent
| NotADir
| Dir "bool \<Rightarrow> path list"

section \<open>Library behaviour the program relies on\<close>

text \<open>\<^verbatim>\<open>Path.stat().st_size\<close>: the length of the file, or an exception.\<close>

definition stat_size :: "fs \<Rightarrow> path \<Rightarrow> error + int" where
  "stat_size files p =
     (case files p of None \<Rightarrow> Inl FileNotFoundError | Some content \<Rightarrow> Inr (int (length content)))"

text \<open>\<^verbatim>\<open>Path.write_bytes\<close>: the file is created or replaced.\<close>

definition write_bytes :: "fs \<Rightarrow> path \<Rightarrow> bytes \<Rightarrow> fs" where
  "write_bytes files p content = files(p \<mapsto> content)"

text \<open>Python's \<^verbatim>\<open>int()\<close> on a float drops the fractional part, towards zero.\<close>

definition py_int :: "rat \<Rightarrow> int" where
  "py_int x = (if 0 \<le> x then \<lfloor>x\<rfloor> else \<lceil>x\<rceil>)"

text \<open>
  The product \<^verbatim>\<open>width * resize_step\<close> of an integer and a float. This is an
  idealisation: a finite float is a rational number and the product is taken exactly,
  while Python rounds it to the nearest double. The integer that \<^verbatim>\<open>int()\<close> makes of
  it can therefore differ by one from Python's (for 90 and the float 0.7 Python gives 62,
  the exact product of 90 and 7/10 gives 63), and a \<^verbatim>\<open>resize_step\<close> that is infinite
  or not a number, on which \<^verbatim>\<open>int()\<close> raises, has no counterpart here. What is
  proved below about the sides of the picture uses two facts about the product only: for
  a factor strictly between 0 and 1 it does not exceed a side of at least 1, and it is
  not positive for a side below 1. Rounding to the nearest double keeps both for every
  side below \<open>2 ^ 53\<close>. The exact number of pixels after a resize is not the subject
  of any theorem below.
\<close>

definition float_mul :: "int \<Rightarrow> rat \<Rightarrow> rat" where
  "float_mul n x = of_int n * x"

text \<open>\<^verbatim>\<open>str.upper\<close> on the ASCII letters, which is all a Pillow format name has.\<close>

definition upper_char :: "char \<Rightarrow> char" where
  "upper_char c =
     (let n = (of_char c :: nat) in if 97 \<le> n \<and> n \<le> 122 then char_of (n - 32) else c)"

definition upper :: "string \<Rightarrow> string" where
  "upper s = map upper_char s"

section \<open>The program\<close>

text \<open>
  \<^verbatim>\<open>_save_to_buffer\<close>: progressive encoding is switched on for JPEG, the picture is
  saved into a buffer. An exception of \<^verbatim>\<open>Image.save\<close> is not caught.
\<close>

definition save_to_buffer :: "'img pil \<Rightarrow> 'img \<Rightarrow> string \<Rightarrow> int \<Rightarrow> error + bytes" where
  "save_to_buffer P img format_hint q =
     pil_save P img
       \<lparr>kw_format = format_hint, kw_quality = q, kw_optimize = True,
        kw_progressive = (upper format_hint \<in> {''JPEG'', ''JPG''})\<rparr>"

text \<open>
  One pass through the loop body of \<^verbatim>\<open>_compress_image\<close> (lines 65 to 85), in the
  order of the source: encode; accept if it fits; else lower the quality if it is above
  the minimum; else scale both sides, give up if nothing changed, resize otherwise.
\<close>

definition loop_step ::
  "'img pil \<Rightarrow> int \<Rightarrow> int \<Rightarrow> int \<Rightarrow> rat \<Rightarrow> 'img loop_state \<Rightarrow> 'img outcome" where
  "loop_step P target min_quality quality_step resize_step s =
     (case save_to_buffer P (working_img s) ''JPEG'' (quality s) of
        Inl e \<Rightarrow> Raise e
      | Inr buffer \<Rightarrow>
          if int (length buffer) \<le> target then Break (s\<lparr>last_buffer := Some buffer\<rparr>)
          else if quality s > min_quality then
            Continue (s\<lparr>quality := max min_quality (quality s - quality_step)\<rparr>)
          else
            let new_width = max 1 (py_int (float_mul (width s) resize_step));
                new_height = max 1 (py_int (float_mul (height s) resize_step))
            in if (new_width, new_height) = (width s, height s) then
                 Break (s\<lparr>loop_note := CannotCompressFurther, last_buffer := Some buffer\<rparr>)
               else
                 (case pil_resize P (working_img s) (new_width, new_height) of
                    Inl e \<Rightarrow> Raise e
                  | Inr resized \<Rightarrow>
                      Continue (s\<lparr>working_img := resized,
                                  width := fst (pil_size P resized),
                                  height := snd (pil_size P resized),
                                  quality := min 95 (max min_quality (quality s))\<rparr>)))"

text \<open>
  The loop itself. It has no bound in the source, so it is a partial function: the value
  \<open>None\<close> means that the loop runs forever. A loop that ends gives the state at the
  \<^verbatim>\<open>break\<close>, or the exception that left it.
\<close>

partial_function (option) search_loop ::
  "'img pil \<Rightarrow> int \<Rightarrow> int \<Rightarrow> int \<Rightarrow> rat \<Rightarrow> 'img loop_state \<Rightarrow> (error + 'img loop_state) option" where
  "search_loop P target min_quality quality_step resize_step s =
     (case loop_step P target min_quality quality_step resize_step s of
        Break s' \<Rightarrow> Some (Inr s')
      | Raise e \<Rightarrow> Some (Inl e)
      | Continue s' \<Rightarrow> search_loop P target min_quality quality_step resize_step s')"

declare search_loop.simps [code]

text \<open>The state at the loop head after \<open>n\<close> passes that all ended in going round again.\<close>

fun nth_iteration ::
  "'img pil \<Rightarrow> int \<Rightarrow> int \<Rightarrow> int \<Rightarrow> rat \<Rightarrow> nat \<Rightarrow> 'img loop_state \<Rightarrow> 'img loop_state option" where
  "nth_iteration P target min_quality quality_step resize_step 0 s = Some s"
| "nth_iteration P target min_quality quality_step resize_step (Suc n) s =
     (case loop_step P target min_quality quality_step resize_step s of
        Continue s' \<Rightarrow> nth_iteration P target min_quality quality_step resize_step n s'
      | _ \<Rightarrow> None)"

text \<open>Lines 59 to 62: the variables before the loop.\<close>

definition init_state :: "'img pil \<Rightarrow> 'img \<Rightarrow> 'img loop_state" where
  "init_state P img =
     \<lparr>working_img = img, quality = 95,
      width = fst (pil_size P img), height = snd (pil_size P img),
      last_buffer = None, loop_note = Empty\<rparr>"

text \<open>
  Lines 87 to 115: what happens after the loop. Without a buffer the file is left alone;
  with one, the file is overwritten, its size is read back and the note is settled.
  The result is the file system afterwards and the value returned or the exception raised.
\<close>

definition finish ::
  "fs \<Rightarrow> path \<Rightarrow> int \<Rightarrow> string \<Rightarrow> int \<Rightarrow> 'img loop_state \<Rightarrow> fs \<times> (error + CompressResult)" where
  "finish files image_path orig_size img_format target s =
     (case last_buffer s of
        None \<Rightarrow>
          (files, Inr \<lparr>path = image_path, original_size = orig_size, final_size = orig_size,
                       succeeded = False, res_note = UnknownProblem\<rparr>)
      | Some buffer \<Rightarrow>
          let files' = write_bytes files image_path buffer in
          (case stat_size files' image_path of
             Inl e \<Rightarrow> (files', Inl e)
           | Inr fsize \<Rightarrow>
               let success = (fsize \<le> target);
                   note1 = (if \<not> success \<and> loop_note s = Empty then StillOverTarget
                            else loop_note s);
                   note2 = (if success \<and> note1 \<noteq> Empty then WithFinalSize note1 fsize
                            else note1);
                   note3 = (if note2 = Empty \<and> upper img_format \<noteq> ''JPEG''
                            then FormatConverted img_format else note2)
               in (files', Inr \<lparr>path = image_path, original_size = orig_size,
                                final_size = fsize, succeeded = success, res_note = note3\<rparr>)))"

text \<open>Line 56, \<^verbatim>\<open>img.format or "JPEG"\<close>: a missing or empty format counts as JPEG.\<close>

definition format_or_jpeg :: "string option \<Rightarrow> string" where
  "format_or_jpeg fmt = (case fmt of None \<Rightarrow> ''JPEG'' | Some f \<Rightarrow> if f = [] then ''JPEG'' else f)"

text \<open>
  \<^verbatim>\<open>_compress_image\<close>. No statement of it sits in a \<^verbatim>\<open>try\<close>, so an exception of
  \<^verbatim>\<open>stat\<close>, of opening the picture or of the loop leaves the function at once.
  \<^verbatim>\<open>Image.open\<close> reads the file, so it raises when the file is not there.
\<close>

definition compress_image ::
  "'img pil \<Rightarrow> fs \<Rightarrow> path \<Rightarrow> int \<Rightarrow> int \<Rightarrow> int \<Rightarrow> rat \<Rightarrow> (fs \<times> (error + CompressResult)) option" where
  "compress_image P files image_path target min_quality quality_step resize_step =
     (case stat_size files image_path of
        Inl e \<Rightarrow> Some (files, Inl e)
      | Inr orig_size \<Rightarrow>
          (case files image_path of
             None \<Rightarrow> Some (files, Inl FileNotFoundError)
           | Some content \<Rightarrow>
               (case pil_open P content of
                  Inl e \<Rightarrow> Some (files, Inl e)
                | Inr (fmt, img) \<Rightarrow>
                    let img_format = format_or_jpeg fmt
                    in (case search_loop P target min_quality quality_step resize_step
                               (init_state P img) of
                          None \<Rightarrow> None
                        | Some (Inl e) \<Rightarrow> Some (files, Inl e)
                        | Some (Inr s) \<Rightarrow>
                            Some (finish files image_path orig_size img_format target s)))))"

text \<open>
  The \<^verbatim>\<open>for\<close> loop of \<^verbatim>\<open>compress_directory\<close> over the listed files: each result
  is appended, an exception of one file ends the loop and the function.
\<close>

fun compress_files ::
  "'img pil \<Rightarrow> fs \<Rightarrow> path list \<Rightarrow> int \<Rightarrow> int \<Rightarrow> int \<Rightarrow> rat \<Rightarrow> CompressResult list
     \<Rightarrow> (fs \<times> (error + CompressResult list)) option" where
  "compress_files P files [] target min_quality quality_step resize_step results =
     Some (files, Inr results)"
| "compress_files P files (image_file # rest) target min_quality quality_step resize_step results =
     (case compress_image P files image_file target min_quality quality_step resize_step of
        None \<Rightarrow> None
      | Some (files', Inl e) \<Rightarrow> Some (files', Inl e)
      | Some (files', Inr result) \<Rightarrow>
          compress_files P files' rest target min_quality quality_step resize_step
            (results @ [result]))"

text \<open>\<^verbatim>\<open>compress_directory\<close>: the two checks of the directory, then the loop.\<close>

definition compress_directory ::
  "'img pil \<Rightarrow> fs \<Rightarrow> dir_entry \<Rightarrow> int \<Rightarrow> bool \<Rightarrow> int \<Rightarrow> int \<Rightarrow> rat
     \<Rightarrow> (fs \<times> (error + CompressResult list)) option" where
  "compress_directory P files directory target recursive min_quality quality_step resize_step =
     (case directory of
        Absent \<Rightarrow> Some (files, Inl FileNotFoundError)
      | NotADir \<Rightarrow> Some (files, Inl NotADirectoryError)
      | Dir listing \<Rightarrow>
          compress_files P files (listing recursive) target min_quality quality_step
            resize_step [])"

section \<open>Notions for stating the properties\<close>

text \<open>
  What the program expects of \<^verbatim>\<open>Image.resize\<close>: the picture it returns has the size
  that was asked for.
\<close>

definition pil_resize_exact :: "'img pil \<Rightarrow> bool" where
  "pil_resize_exact P \<longleftrightarrow>
     (\<forall>img d img'. pil_resize P img d = Inr img' \<longrightarrow> pil_size P img' = d)"

text \<open>Lines 75 and 76: one side of the picture, scaled, cut to an integer, at least 1.\<close>

definition scale_side :: "int \<Rightarrow> rat \<Rightarrow> int" where
  "scale_side n resize_step = max 1 (py_int (float_mul n resize_step))"

text \<open>
  A rank for the termination argument: what is left of the quality above the minimum,
  plus the two sides. A side below 1 (which no picture has) counts 2, so that the first
  resize, which lifts it to 1, lowers the rank as well.
\<close>

definition side_rank :: "int \<Rightarrow> nat" where
  "side_rank n = (if n < 1 then 2 else nat n)"

definition loop_rank :: "int \<Rightarrow> 'img loop_state \<Rightarrow> nat" where
  "loop_rank min_quality s =
     nat (quality s - min_quality) + side_rank (width s) + side_rank (height s)"

text \<open>The pass that starts in state \<open>s\<close> leaves the loop, with \<open>res\<close>.\<close>

definition exits_at ::
  "'img pil \<Rightarrow> int \<Rightarrow> int \<Rightarrow> int \<Rightarrow> rat \<Rightarrow> 'img loop_state \<Rightarrow> error + 'img loop_state \<Rightarrow> bool" where
  "exits_at P target min_quality quality_step resize_step s res =
     (case loop_step P target min_quality quality_step resize_step s of
        Break s' \<Rightarrow> res = Inr s'
      | Raise e \<Rightarrow> res = Inl e
      | Continue s' \<Rightarrow> False)"

text \<open>Both sides of the picture are at least one pixel.\<close>

definition sides_positive :: "'img loop_state \<Rightarrow> bool" where
  "sides_positive s \<longleftrightarrow> 1 \<le> width s \<and> 1 \<le> height s"

section \<open>A small Pillow to run the program on\<close>

text \<open>
  A picture is its width and height. A file of \<open>n\<close> bytes decodes to a PNG picture of
  \<open>n\<close> by 2 pixels, an empty file does not decode. Encoding gives one byte, plus one
  for every hundred units of pixels times quality. Resizing gives the size asked for.
\<close>

definition toy_pil :: "(int \<times> int) pil" where
  "toy_pil =
     \<lparr>pil_open = (\<lambda>content. if content = [] then Inl UnidentifiedImageError
                              else Inr (Some ''PNG'', (int (length content), 2))),
      pil_size = (\<lambda>img. img),
      pil_save = (\<lambda>img kw. Inr (replicate (nat (1 + fst img * snd img * kw_quality kw div 100)) 0)),
      pil_resize = (\<lambda>img d. Inr d)\<rparr>"

definition toy_files :: fs where
  "toy_files = [''a.png'' \<mapsto> [], ''b.png'' \<mapsto> [0, 0]]"

definition toy_dir :: dir_entry where
  "toy_dir = Dir (\<lambda>recursive. [''a.png'', ''b.png''])"

text \<open>The same Pillow, but every resize raises; and the same, but every save raises.\<close>

definition toy_pil_resize_fails :: "(int \<times> int) pil" where
  "toy_pil_resize_fails = toy_pil\<lparr>pil_resize := (\<lambda>img d. Inl ValueError)\<rparr>"

definition toy_pil_save_fails :: "(int \<times> int) pil" where
  "toy_pil_save_fails = toy_pil\<lparr>pil_save := (\<lambda>img kw. Inl OSError)\<rparr>"


section \<open>Arithmetic of the resize\<close>

lemma clamp_py_int: "max 1 (py_int x) = max 1 \<lfloor>x\<rfloor>"
proof (cases "0 \<le> x")
  case True
  then show ?thesis by (simp add: py_int_def)
next
  case False
  then have "x < 0" by simp
  then have "\<lceil>x\<rceil> \<le> 0" and "\<lfloor>x\<rfloor> \<le> 0"
    by (simp_all add: ceiling_le_iff floor_le_iff)
  with False show ?thesis by (simp add: py_int_def)
qed

lemma floor_rat_numeral: "\<lfloor>numeral a / numeral b :: rat\<rfloor> = numeral a div numeral b"
  by (metis floor_divide_of_int_eq of_int_numeral)

lemma scale_side_ge_1: "1 \<le> scale_side n r"
  by (simp add: scale_side_def)

lemma scale_side_less:
  assumes "0 < r" "r < 1" "1 \<le> n"
  shows "scale_side n r \<le> n"
proof -
  have "of_int n * r < (of_int n :: rat)"
    using assms by simp
  then have "\<lfloor>of_int n * r\<rfloor> < n"
    by (simp add: floor_less_iff)
  then show "scale_side n r \<le> n"
    using assms(3) by (simp add: scale_side_def clamp_py_int float_mul_def)
qed

lemma scale_side_nonpos:
  assumes "0 < r" "n < 1"
  shows "scale_side n r = 1"
proof -
  have "of_int n * r \<le> 0"
    using assms by (simp add: mult_le_0_iff)
  then have "\<lfloor>of_int n * r\<rfloor> \<le> 0"
    by (simp add: floor_le_iff)
  then show ?thesis
    by (simp add: scale_side_def clamp_py_int float_mul_def)
qed

lemma side_rank_scale:
  assumes "0 < r" "r < 1"
  shows "side_rank (scale_side n r) \<le> side_rank n"
    and "side_rank (scale_side n r) = side_rank n \<Longrightarrow> scale_side n r = n"
proof -
  show "side_rank (scale_side n r) \<le> side_rank n"
  proof (cases "n < 1")
    case True
    then show ?thesis using scale_side_nonpos[OF assms(1) True] by (simp add: side_rank_def)
  next
    case False
    then have "1 \<le> n" by simp
    from scale_side_less[OF assms this] scale_side_ge_1[of n r] False
    show ?thesis by (simp add: side_rank_def)
  qed
  show "scale_side n r = n" if eq: "side_rank (scale_side n r) = side_rank n"
  proof (cases "n < 1")
    case True
    then show ?thesis using scale_side_nonpos[OF assms(1) True] eq by (simp add: side_rank_def)
  next
    case False
    then show ?thesis using eq scale_side_ge_1[of n r] by (simp add: side_rank_def)
  qed
qed

section \<open>One pass through the loop\<close>

lemma loop_step_cases:
  "loop_step P t mq qs r s =
     (case save_to_buffer P (working_img s) ''JPEG'' (quality s) of
        Inl e \<Rightarrow> Raise e
      | Inr buffer \<Rightarrow>
          if int (length buffer) \<le> t then Break (s\<lparr>last_buffer := Some buffer\<rparr>)
          else if quality s > mq then
            Continue (s\<lparr>quality := max mq (quality s - qs)\<rparr>)
          else if scale_side (width s) r = width s \<and> scale_side (height s) r = height s then
                 Break (s\<lparr>loop_note := CannotCompressFurther, last_buffer := Some buffer\<rparr>)
          else
                 (case pil_resize P (working_img s) (scale_side (width s) r, scale_side (height s) r) of
                    Inl e \<Rightarrow> Raise e
                  | Inr resized \<Rightarrow>
                      Continue (s\<lparr>working_img := resized,
                                  width := fst (pil_size P resized),
                                  height := snd (pil_size P resized),
                                  quality := min 95 (max mq (quality s))\<rparr>)))"
  by (cases "save_to_buffer P (working_img s) ''JPEG'' (quality s)")
     (simp_all add: loop_step_def scale_side_def Let_def)

lemma loop_step_Continue:
  assumes "loop_step P t mq qs r s = Continue s'"
  shows "(mq < quality s \<and> s' = s\<lparr>quality := max mq (quality s - qs)\<rparr>) \<or>
         (quality s \<le> mq \<and>
          (scale_side (width s) r \<noteq> width s \<or> scale_side (height s) r \<noteq> height s) \<and>
          (\<exists>resized. pil_resize P (working_img s) (scale_side (width s) r, scale_side (height s) r) = Inr resized \<and>
             s' = s\<lparr>working_img := resized,
                                  width := fst (pil_size P resized),
                                  height := snd (pil_size P resized),
                                  quality := min 95 (max mq (quality s))\<rparr>))"
  using assms unfolding loop_step_cases
  by (auto split: sum.splits if_splits)

lemma loop_step_Break:
  assumes "loop_step P t mq qs r s = Break s'"
  shows "last_buffer s' \<noteq> None \<and>
         (loop_note s' = loop_note s \<or> loop_note s' = CannotCompressFurther)"
  using assms unfolding loop_step_cases
  by (auto split: sum.splits if_splits)

lemma loop_step_Continue_note:
  assumes "loop_step P t mq qs r s = Continue s'"
  shows "loop_note s' = loop_note s"
  using loop_step_Continue[OF assms] by auto

lemma loop_rank_decreases:
  assumes r: "0 < r" "r < 1" and qs: "1 \<le> qs" and ex: "pil_resize_exact P"
    and step: "loop_step P t mq qs r s = Continue s'"
  shows "loop_rank mq s' < loop_rank mq s"
proof -
  from loop_step_Continue[OF step] consider
    (lower) "mq < quality s" "s' = s\<lparr>quality := max mq (quality s - qs)\<rparr>"
  | (shrink) resized where "quality s \<le> mq"
      "scale_side (width s) r \<noteq> width s \<or> scale_side (height s) r \<noteq> height s"
      "pil_resize P (working_img s) (scale_side (width s) r, scale_side (height s) r) = Inr resized"
      "s' = s\<lparr>working_img := resized, width := fst (pil_size P resized),
                   height := snd (pil_size P resized), quality := min 95 (max mq (quality s))\<rparr>"
    by blast
  then show ?thesis
  proof cases
  case lower
  then show ?thesis using qs by (simp add: loop_rank_def)
next
  case (shrink resized)
  then have q: "quality s \<le> mq"
    and ne: "scale_side (width s) r \<noteq> width s \<or> scale_side (height s) r \<noteq> height s"
    and rz: "pil_resize P (working_img s) (scale_side (width s) r, scale_side (height s) r) = Inr resized"
    and s': "s' = s\<lparr>working_img := resized, width := fst (pil_size P resized),
                   height := snd (pil_size P resized), quality := min 95 (max mq (quality s))\<rparr>"
    by simp_all
  from ex rz have sz: "pil_size P resized = (scale_side (width s) r, scale_side (height s) r)"
    unfolding pil_resize_exact_def by blast
  have w: "side_rank (scale_side (width s) r) \<le> side_rank (width s)"
    and h: "side_rank (scale_side (height s) r) \<le> side_rank (height s)"
    using side_rank_scale(1)[OF r] by blast+
  have "side_rank (scale_side (width s) r) \<noteq> side_rank (width s) \<or>
        side_rank (scale_side (height s) r) \<noteq> side_rank (height s)"
    using ne side_rank_scale(2)[OF r] by blast
  with w h have "side_rank (scale_side (width s) r) + side_rank (scale_side (height s) r)
      < side_rank (width s) + side_rank (height s)" by linarith
  moreover have "nat (quality s' - mq) = 0" using q s' by simp
  ultimately show ?thesis using s' sz by (simp add: loop_rank_def)
qed
qed

lemma sides_positive_step:
  assumes ex: "pil_resize_exact P" and "sides_positive s"
    and step: "loop_step P t mq qs r s = Continue s'"
  shows "sides_positive s'"
proof -
  from loop_step_Continue[OF step] consider
    (lower) "s' = s\<lparr>quality := max mq (quality s - qs)\<rparr>"
  | (shrink) resized where
      "pil_resize P (working_img s) (scale_side (width s) r, scale_side (height s) r) = Inr resized"
      "s' = s\<lparr>working_img := resized, width := fst (pil_size P resized),
                   height := snd (pil_size P resized), quality := min 95 (max mq (quality s))\<rparr>"
    by blast
  then show ?thesis
  proof cases
    case lower
    with assms(2) show ?thesis by (simp add: sides_positive_def)
  next
    case (shrink resized)
    from ex shrink(1) have "pil_size P resized = (scale_side (width s) r, scale_side (height s) r)"
      unfolding pil_resize_exact_def by blast
    with shrink(2) show ?thesis by (simp add: sides_positive_def scale_side_ge_1)
  qed
qed

lemma quality_floor_step:
  assumes "min 95 mq \<le> quality s" and step: "loop_step P t mq qs r s = Continue s'"
  shows "min 95 mq \<le> quality s'"
  using loop_step_Continue[OF step] assms(1) by auto

lemma quality_range_step:
  assumes "mq \<le> 95" "0 \<le> qs" and "mq \<le> quality s \<and> quality s \<le> 95"
    and step: "loop_step P t mq qs r s = Continue s'"
  shows "mq \<le> quality s' \<and> quality s' \<le> 95"
  using loop_step_Continue[OF step] assms(1,2,3) by auto

section \<open>The loop and its iterations\<close>

lemma iteration_invariant:
  assumes step: "\<And>s s'. I s \<Longrightarrow> loop_step P t mq qs r s = Continue s' \<Longrightarrow> I s'"
    and "I s" and "nth_iteration P t mq qs r n s = Some sn"
  shows "I sn"
  using assms(2,3)
proof (induction n arbitrary: s)
  case 0
  then show ?case by simp
next
  case (Suc n)
  then obtain s' where s': "loop_step P t mq qs r s = Continue s'"
    and n: "nth_iteration P t mq qs r n s' = Some sn"
    by (auto split: outcome.splits)
  from step[OF Suc.prems(1) s'] n show ?case by (rule Suc.IH)
qed

lemma search_loop_Some_iteration:
  assumes "search_loop P t mq qs r s = Some res"
  shows "\<exists>n sn. nth_iteration P t mq qs r n s = Some sn \<and> exits_at P t mq qs r sn res"
proof -
  define Q :: "((((('a pil \<times> int) \<times> int) \<times> int) \<times> rat) \<times> 'a loop_state) \<Rightarrow> error + 'a loop_state \<Rightarrow> bool"
    where "Q = (\<lambda>x res. case x of (((((P, t), mq), qs), r), s) \<Rightarrow>
                  \<exists>n sn. nth_iteration P t mq qs r n s = Some sn \<and> exits_at P t mq qs r sn res)"
  have "Q (((((P, t), mq), qs), r), s) res"
  proof (rule search_loop.raw_induct[where Pa = Q, OF _ assms])
    fix loop :: "'a pil \<Rightarrow> int \<Rightarrow> int \<Rightarrow> int \<Rightarrow> rat \<Rightarrow> 'a loop_state \<Rightarrow> (error + 'a loop_state) option"
    fix P t mq qs r s res
    assume IH: "\<And>P t mq qs r s res. loop P t mq qs r s = Some res \<Longrightarrow> Q (((((P, t), mq), qs), r), s) res"
    assume body: "(case loop_step P t mq qs r s of
                     Break s' \<Rightarrow> Some (Inr s')
                   | Continue s' \<Rightarrow> loop P t mq qs r s'
                   | Raise e \<Rightarrow> Some (Inl e)) = Some res"
    show "Q (((((P, t), mq), qs), r), s) res"
    proof (cases "loop_step P t mq qs r s")
      case (Break s')
      with body have "exits_at P t mq qs r s res" by (auto simp: exits_at_def)
      moreover have "nth_iteration P t mq qs r 0 s = Some s" by simp
      ultimately show ?thesis unfolding Q_def by blast
    next
      case (Raise e)
      with body have "exits_at P t mq qs r s res" by (auto simp: exits_at_def)
      moreover have "nth_iteration P t mq qs r 0 s = Some s" by simp
      ultimately show ?thesis unfolding Q_def by blast
    next
      case (Continue s')
      with body have "loop P t mq qs r s' = Some res" by simp
      from IH[OF this] obtain n sn
        where n: "nth_iteration P t mq qs r n s' = Some sn" "exits_at P t mq qs r sn res"
        unfolding Q_def by auto
      from n(1) Continue have "nth_iteration P t mq qs r (Suc n) s = Some sn" by simp
      with n(2) show ?thesis unfolding Q_def by blast
    qed
  qed
  then show ?thesis by (simp add: Q_def)
qed

lemma iteration_search_loop:
  assumes "nth_iteration P t mq qs r n s = Some sn"
  shows "search_loop P t mq qs r s = search_loop P t mq qs r sn"
  using assms
proof (induction n arbitrary: s)
  case 0
  then show ?case by simp
next
  case (Suc n)
  then obtain s' where s': "loop_step P t mq qs r s = Continue s'"
    and n: "nth_iteration P t mq qs r n s' = Some sn"
    by (auto split: outcome.splits)
  from s' have "search_loop P t mq qs r s = search_loop P t mq qs r s'"
    by (subst search_loop.simps) simp
  with Suc.IH[OF n] show ?case by simp
qed

lemma loop_note_iteration:
  assumes "nth_iteration P t mq qs r n s = Some sn"
  shows "loop_note sn = loop_note s"
  using assms
proof (induction n arbitrary: s)
  case 0
  then show ?case by simp
next
  case (Suc n)
  then obtain s' where s': "loop_step P t mq qs r s = Continue s'"
    and n: "nth_iteration P t mq qs r n s' = Some sn"
    by (auto split: outcome.splits)
  from Suc.IH[OF n] loop_step_Continue_note[OF s'] show ?case by simp
qed

lemma search_loop_exit:
  assumes "search_loop P t mq qs r s = Some (Inr s')"
  shows "last_buffer s' \<noteq> None \<and>
         (loop_note s' = loop_note s \<or> loop_note s' = CannotCompressFurther)"
proof -
  from search_loop_Some_iteration[OF assms] obtain n sn
    where n: "nth_iteration P t mq qs r n s = Some sn" and ex: "exits_at P t mq qs r sn (Inr s')"
    by blast
  from ex have "loop_step P t mq qs r sn = Break s'"
    by (auto simp: exits_at_def split: outcome.splits)
  from loop_step_Break[OF this] loop_note_iteration[OF n] show ?thesis by simp
qed

lemma search_loop_Raise:
  assumes "nth_iteration P t mq qs r n s = Some sn" and "loop_step P t mq qs r sn = Raise e"
  shows "search_loop P t mq qs r s = Some (Inl e)"
proof -
  from assms(2) have "search_loop P t mq qs r sn = Some (Inl e)"
    by (subst search_loop.simps) simp
  with iteration_search_loop[OF assms(1)] show ?thesis by simp
qed

lemma search_loop_Break:
  assumes "nth_iteration P t mq qs r n s = Some sn" and "loop_step P t mq qs r sn = Break s'"
  shows "search_loop P t mq qs r s = Some (Inr s')"
proof -
  from assms(2) have "search_loop P t mq qs r sn = Some (Inr s')"
    by (subst search_loop.simps) simp
  with iteration_search_loop[OF assms(1)] show ?thesis by simp
qed

lemma stuck_iteration:
  assumes "loop_step P t mq qs r s = Continue s"
  shows "nth_iteration P t mq qs r n s = Some s"
  using assms by (induction n) simp_all

lemma stuck_search_loop:
  assumes "loop_step P t mq qs r s = Continue s"
  shows "search_loop P t mq qs r s = None"
proof (rule ccontr)
  assume "search_loop P t mq qs r s \<noteq> None"
  then obtain res where "search_loop P t mq qs r s = Some res" by auto
  from search_loop_Some_iteration[OF this] obtain n sn
    where "nth_iteration P t mq qs r n s = Some sn" "exits_at P t mq qs r sn res" by blast
  with stuck_iteration[OF assms, of n] assms show False
    by (simp add: exits_at_def)
qed

section \<open>After the loop\<close>

lemma stat_size_write_bytes: "stat_size (write_bytes files p b) p = Inr (int (length b))"
  by (simp add: stat_size_def write_bytes_def)

lemma finish_Some:
  assumes "last_buffer s = Some buf"
  shows "finish files p osz fmt t s =
     (files(p \<mapsto> buf),
      Inr \<lparr>path = p, original_size = osz, final_size = int (length buf),
           succeeded = (int (length buf) \<le> t),
           res_note =
             (if loop_note s \<noteq> Empty then
                (if int (length buf) \<le> t then WithFinalSize (loop_note s) (int (length buf))
                 else loop_note s)
              else if \<not> int (length buf) \<le> t then StillOverTarget
              else if upper fmt \<noteq> ''JPEG'' then FormatConverted fmt
              else Empty)\<rparr>)"
  using assms
  by (simp add: finish_def stat_size_write_bytes Let_def)
     (simp add: write_bytes_def)

lemma finish_None:
  assumes "last_buffer s = None"
  shows "finish files p osz fmt t s =
     (files, Inr \<lparr>path = p, original_size = osz, final_size = osz,
                  succeeded = False, res_note = UnknownProblem\<rparr>)"
  using assms by (simp add: finish_def)

lemma compress_image_cases:
  assumes "compress_image P files p t mq qs r = Some (files', out)"
  obtains (stat) "files p = None" "files' = files" "out = Inl FileNotFoundError"
  | (decode) content e where "files p = Some content" "pil_open P content = Inl e"
      "files' = files" "out = Inl e"
  | (raised) content fmt img e where "files p = Some content" "pil_open P content = Inr (fmt, img)"
      "search_loop P t mq qs r (init_state P img) = Some (Inl e)" "files' = files" "out = Inl e"
  | (finished) content fmt img s where "files p = Some content" "pil_open P content = Inr (fmt, img)"
      "search_loop P t mq qs r (init_state P img) = Some (Inr s)"
      "(files', out) = finish files p (int (length content)) (format_or_jpeg fmt) t s"
  using assms
  by (auto simp: compress_image_def stat_size_def split: option.splits sum.splits prod.splits)

section \<open>Running the small Pillow\<close>

lemma toy_exact: "pil_resize_exact toy_pil"
  by (simp add: pil_resize_exact_def toy_pil_def)

lemma toy_save: "save_to_buffer toy_pil (w, h) ''JPEG'' q = Inr (replicate (nat (1 + w * h * q div 100)) 0)"
  by (simp add: save_to_buffer_def toy_pil_def)

lemma toy_simps:
  "pil_size toy_pil img = img"
  "pil_resize toy_pil img d = Inr d"
  "pil_open toy_pil content =
     (if content = [] then Inl UnidentifiedImageError else Inr (Some ''PNG'', (int (length content), 2)))"
  by (simp_all add: toy_pil_def)

lemmas toy_eval = loop_step_def toy_save init_state_def toy_simps py_int_def float_mul_def floor_rat_numeral

lemma toy_run_13:
  "nth_iteration toy_pil 0 30 5 (9/10) 13 (init_state toy_pil (2, 2)) =
     Some \<lparr>working_img = (2, 2), quality = 30, width = 2, height = 2,
           last_buffer = None, loop_note = Empty\<rparr>"
  by (simp add: eval_nat_numeral toy_eval)

lemma toy_run_14:
  "nth_iteration toy_pil 0 30 5 (9/10) 14 (init_state toy_pil (2, 2)) =
     Some \<lparr>working_img = (1, 1), quality = 30, width = 1, height = 1,
           last_buffer = None, loop_note = Empty\<rparr>"
  by (simp add: eval_nat_numeral toy_eval)

lemma toy_last_pass:
  "loop_step toy_pil 0 30 5 (9/10)
     \<lparr>working_img = (1, 1), quality = 30, width = 1, height = 1,
      last_buffer = None, loop_note = Empty\<rparr> =
   Break \<lparr>working_img = (1, 1), quality = 30, width = 1, height = 1,
          last_buffer = Some [0], loop_note = CannotCompressFurther\<rparr>"
  by (simp add: toy_eval)

lemma toy_search_loop:
  "search_loop toy_pil 0 30 5 (9/10) (init_state toy_pil (2, 2)) =
     Some (Inr \<lparr>working_img = (1, 1), quality = 30, width = 1, height = 1,
                last_buffer = Some [0], loop_note = CannotCompressFurther\<rparr>)"
  by (rule search_loop_Break[OF toy_run_14 toy_last_pass])

lemma toy_compress_image:
  "compress_image toy_pil toy_files ''b.png'' 0 30 5 (9/10) =
     Some (toy_files(''b.png'' \<mapsto> [0]),
           Inr \<lparr>path = ''b.png'', original_size = 2, final_size = 1, succeeded = False,
                res_note = CannotCompressFurther\<rparr>)"
proof -
  have "toy_files ''b.png'' = Some [0, 0]" by (simp add: toy_files_def)
  then show ?thesis
    by (simp add: compress_image_def stat_size_def toy_simps toy_search_loop finish_Some)
qed

lemma toy_first_pass:
  "loop_step toy_pil 4 30 5 (9/10) (init_state toy_pil (2, 2)) =
     Break ((init_state toy_pil (2, 2))\<lparr>last_buffer := Some [0, 0, 0, 0]\<rparr>)"
  by (simp add: toy_eval eval_nat_numeral)

lemma toy_compress_image_fits:
  "compress_image toy_pil toy_files ''b.png'' 4 30 5 (9/10) =
     Some (toy_files(''b.png'' \<mapsto> [0, 0, 0, 0]),
           Inr \<lparr>path = ''b.png'', original_size = 2, final_size = 4, succeeded = True,
                res_note = FormatConverted ''PNG''\<rparr>)"
proof -
  have f: "toy_files ''b.png'' = Some [0, 0]" by (simp add: toy_files_def)
  have "search_loop toy_pil 4 30 5 (9/10) (init_state toy_pil (2, 2)) =
     Some (Inr ((init_state toy_pil (2, 2))\<lparr>last_buffer := Some [0, 0, 0, 0]\<rparr>))"
    by (subst search_loop.simps) (simp add: toy_first_pass)
  with f show ?thesis
    by (simp add: compress_image_def stat_size_def toy_simps finish_Some init_state_def
        format_or_jpeg_def upper_def upper_char_def)
qed

lemma toy_wide_run_13:
  "nth_iteration toy_pil 2 30 5 (9/10) 13 (init_state toy_pil (10, 2)) =
     Some \<lparr>working_img = (10, 2), quality = 30, width = 10, height = 2,
           last_buffer = None, loop_note = Empty\<rparr>"
  by (simp add: eval_nat_numeral toy_eval)

lemma toy_wide_pass_14:
  "loop_step toy_pil 2 30 5 (9/10)
     \<lparr>working_img = (10, 2), quality = 30, width = 10, height = 2,
      last_buffer = None, loop_note = Empty\<rparr> =
   Continue \<lparr>working_img = (9, 1), quality = 30, width = 9, height = 1,
             last_buffer = None, loop_note = Empty\<rparr>"
  by (simp add: toy_eval)

lemma compress_files_append:
  "compress_files P files (xs @ ys) t mq qs r acc =
     (case compress_files P files xs t mq qs r acc of
        None \<Rightarrow> None
      | Some (files', Inl e) \<Rightarrow> Some (files', Inl e)
      | Some (files', Inr res) \<Rightarrow> compress_files P files' ys t mq qs r res)"
proof (induction xs arbitrary: files acc)
  case Nil
  show ?case by simp
next
  case (Cons x xs)
  show ?case
  proof (cases "compress_image P files x t mq qs r")
    case None
    then show ?thesis by simp
  next
    case (Some out)
    obtain files' res where out: "out = (files', res)" by (cases out)
    show ?thesis
    proof (cases res)
      case (Inl e)
      with Some out show ?thesis by simp
    next
      case (Inr result)
      with Some out Cons.IH[of files' "acc @ [result]"] show ?thesis by simp
    qed
  qed
qed

lemma toy_resize_fails_simps:
  "pil_size toy_pil_resize_fails img = img"
  "pil_resize toy_pil_resize_fails img d = Inl ValueError"
  "pil_open toy_pil_resize_fails content = pil_open toy_pil content"
  "save_to_buffer toy_pil_resize_fails img f q = save_to_buffer toy_pil img f q"
  by (simp_all add: toy_pil_resize_fails_def save_to_buffer_def toy_simps)

lemma toy_save_fails_simps:
  "pil_size toy_pil_save_fails img = img"
  "pil_open toy_pil_save_fails content = pil_open toy_pil content"
  "save_to_buffer toy_pil_save_fails img f q = Inl OSError"
  by (simp_all add: toy_pil_save_fails_def save_to_buffer_def toy_simps)

lemma toy_resize_fails_run:
  "nth_iteration toy_pil_resize_fails 0 30 5 (9/10) 13 (init_state toy_pil_resize_fails (2, 2)) =
     Some \<lparr>working_img = (2, 2), quality = 30, width = 2, height = 2,
           last_buffer = None, loop_note = Empty\<rparr>"
  by (simp add: eval_nat_numeral loop_step_def init_state_def toy_resize_fails_simps toy_save)

lemma toy_resize_fails_pass:
  "loop_step toy_pil_resize_fails 0 30 5 (9/10)
     \<lparr>working_img = (2, 2), quality = 30, width = 2, height = 2,
      last_buffer = None, loop_note = Empty\<rparr> = Raise ValueError"
  by (simp add: loop_step_def toy_resize_fails_simps toy_save py_int_def float_mul_def
      floor_rat_numeral)

lemma toy_save_fails_pass:
  "loop_step toy_pil_save_fails 0 30 5 (9/10) (init_state toy_pil_save_fails (2, 2)) = Raise OSError"
  by (simp add: loop_step_def init_state_def toy_save_fails_simps)

lemma toy_compress_first:
  "compress_files toy_pil toy_files [''b.png''] 4 30 5 (9/10) [] =
     Some (toy_files(''b.png'' \<mapsto> [0, 0, 0, 0]),
           Inr [\<lparr>path = ''b.png'', original_size = 2, final_size = 4, succeeded = True,
                 res_note = FormatConverted ''PNG''\<rparr>])"
  by (simp add: toy_compress_image_fits)

section \<open>Properties of the program\<close>

subsection \<open>Failures of a single file\<close>

text \<open>
  Claim C1 says that a failure to decode, encode or resize one picture is turned into a
  result with \<open>succeeded = False\<close> and that \<^verbatim>\<open>compress_directory\<close> goes on with the
  next file. The source has no \<^verbatim>\<open>try\<close>. In a directory whose first file does not
  decode and whose second file does, the run ends in the exception of the first file:
  no list of results is returned and the second file is never touched.
\<close>

theorem directory_run_aborts:
  "compress_directory toy_pil toy_files toy_dir 3 True 30 5 (9/10)
     = Some (toy_files, Inl UnidentifiedImageError)"
  by (simp add: compress_directory_def toy_dir_def compress_image_def stat_size_def
      toy_files_def toy_simps)

text \<open>
  Claim C1, amended. Let the file stand anywhere in the listing, and let the files before
  it have been compressed without an exception. When decoding the file raises \<open>e\<close>, or
  when some pass of the loop raises \<open>e\<close> in encoding or resizing, \<^verbatim>\<open>_compress_image\<close>
  raises \<open>e\<close> and returns no result, and the file is as it was.
  \<^verbatim>\<open>compress_directory\<close> raises \<open>e\<close> as well: it returns no list of results, the
  files before stay as they were rewritten, and the files after are not processed.
\<close>

theorem failure_propagates:
  assumes listing: "listing recursive = before @ f # rest"
    and earlier: "compress_files P files before t mq qs r [] = Some (files', Inr results)"
    and present: "files' f = Some content"
    and fails: "pil_open P content = Inl e \<or>
       (\<exists>fmt img n sn. pil_open P content = Inr (fmt, img) \<and>
          nth_iteration P t mq qs r n (init_state P img) = Some sn \<and>
          loop_step P t mq qs r sn = Raise e)"
  shows "compress_image P files' f t mq qs r = Some (files', Inl e) \<and>
         compress_directory P files (Dir listing) t recursive mq qs r = Some (files', Inl e)"
proof -
  have one: "compress_image P files' f t mq qs r = Some (files', Inl e)"
    using fails
  proof
    assume "pil_open P content = Inl e"
    with present show ?thesis by (simp add: compress_image_def stat_size_def)
  next
    assume "\<exists>fmt img n sn. pil_open P content = Inr (fmt, img) \<and>
          nth_iteration P t mq qs r n (init_state P img) = Some sn \<and>
          loop_step P t mq qs r sn = Raise e"
    then obtain fmt img n sn where o: "pil_open P content = Inr (fmt, img)"
      and n: "nth_iteration P t mq qs r n (init_state P img) = Some sn"
      and st: "loop_step P t mq qs r sn = Raise e"
      by blast
    from search_loop_Raise[OF n st] present o show ?thesis
      by (simp add: compress_image_def stat_size_def)
  qed
  then have "compress_files P files' (f # rest) t mq qs r results = Some (files', Inl e)"
    by simp
  with earlier have "compress_files P files (before @ f # rest) t mq qs r [] = Some (files', Inl e)"
    by (simp add: compress_files_append)
  with one listing show ?thesis by (simp add: compress_directory_def)
qed

text \<open>
  The amended claim C1 three times: at a file that does not decode and comes second, the
  first having been rewritten; at a picture whose resize raises after 13 passes; and at a
  picture whose first save raises.
\<close>

theorem failure_propagates_witness:
  "compress_directory toy_pil toy_files (Dir (\<lambda>recursive. [''b.png'', ''a.png''])) 4 False 30 5 (9/10)
     = Some (toy_files(''b.png'' \<mapsto> [0, 0, 0, 0]), Inl UnidentifiedImageError) \<and>
   compress_directory toy_pil_resize_fails toy_files (Dir (\<lambda>recursive. [''b.png'', ''a.png''])) 0 True 30 5 (9/10)
     = Some (toy_files, Inl ValueError) \<and>
   compress_directory toy_pil_save_fails toy_files (Dir (\<lambda>recursive. [''b.png'', ''a.png''])) 0 True 30 5 (9/10)
     = Some (toy_files, Inl OSError)"
proof -
  have a: "(toy_files(''b.png'' \<mapsto> [0, 0, 0, 0])) ''a.png'' = Some []"
    by (simp add: toy_files_def)
  have b: "toy_files ''b.png'' = Some [0, 0]" by (simp add: toy_files_def)
  have decode: "pil_open toy_pil [] = Inl UnidentifiedImageError" by (simp add: toy_simps)
  have none: "\<And>P. compress_files P toy_files [] 0 30 5 (9/10) [] = Some (toy_files, Inr [])"
    by simp
  have resize: "\<exists>fmt img n sn. pil_open toy_pil_resize_fails [0, 0] = Inr (fmt, img) \<and>
      nth_iteration toy_pil_resize_fails 0 30 5 (9/10) n (init_state toy_pil_resize_fails img) = Some sn \<and>
      loop_step toy_pil_resize_fails 0 30 5 (9/10) sn = Raise ValueError"
    using toy_resize_fails_run toy_resize_fails_pass
    by (intro exI[of _ "Some ''PNG''"] exI[of _ "(2, 2)"] exI[of _ 13]
        exI[of _ "\<lparr>working_img = (2, 2), quality = 30, width = 2, height = 2,
      last_buffer = None, loop_note = Empty\<rparr>"]) (simp add: toy_resize_fails_simps toy_simps)
  have save: "\<exists>fmt img n sn. pil_open toy_pil_save_fails [0, 0] = Inr (fmt, img) \<and>
      nth_iteration toy_pil_save_fails 0 30 5 (9/10) n (init_state toy_pil_save_fails img) = Some sn \<and>
      loop_step toy_pil_save_fails 0 30 5 (9/10) sn = Raise OSError"
    using toy_save_fails_pass
    by (intro exI[of _ "Some ''PNG''"] exI[of _ "(2, 2)"] exI[of _ 0]
        exI[of _ "init_state toy_pil_save_fails (2, 2)"]) (simp add: toy_save_fails_simps toy_simps)
  note first = failure_propagates[where listing = "\<lambda>recursive. [''b.png'', ''a.png'']"
      and recursive = False and before = "[''b.png'']" and f = "''a.png''" and rest = "[]"
      and P = toy_pil and files = toy_files and files' = "toy_files(''b.png'' \<mapsto> [0, 0, 0, 0])"
      and content = "[]" and e = UnidentifiedImageError, OF _ toy_compress_first a disjI1[OF decode]]
  note second = failure_propagates[where listing = "\<lambda>recursive. [''b.png'', ''a.png'']"
      and recursive = True and before = "[]" and f = "''b.png''" and rest = "[''a.png'']"
      and P = toy_pil_resize_fails and files = toy_files and files' = toy_files
      and content = "[0, 0]" and e = ValueError, OF _ none b disjI2[OF resize]]
  note third = failure_propagates[where listing = "\<lambda>recursive. [''b.png'', ''a.png'']"
      and recursive = True and before = "[]" and f = "''b.png''" and rest = "[''a.png'']"
      and P = toy_pil_save_fails and files = toy_files and files' = toy_files
      and content = "[0, 0]" and e = OSError, OF _ none b disjI2[OF save]]
  from first second third
  show ?thesis by simp
qed

subsection \<open>Termination\<close>

text \<open>
  Claim C2 promises termination for any quality step. With a step of 0 and a picture that
  does not fit, the quality stays at 95, the pass repeats itself, and the loop never
  returns.
\<close>

theorem zero_step_never_returns:
  "search_loop toy_pil 0 30 0 (9/10) (init_state toy_pil (2, 2)) = None"
  by (rule stuck_search_loop)
     (simp add: loop_step_def toy_save init_state_def toy_simps)

text \<open>
  Claim C2, amended. With a scale factor strictly between 0 and 1, a quality step of at
  least 1 and a resize that returns the size asked for, the loop started in any state
  leaves after finitely many passes, by \<^verbatim>\<open>break\<close> or by an exception: it returns a
  value, and some \<open>n\<close>-th pass is the one that exits with it. Nothing is asked of the
  minimum quality or of the target.
\<close>

theorem search_loop_terminates:
  assumes r: "0 < r" "r < 1" and qs: "1 \<le> qs" and ex: "pil_resize_exact P"
  shows "\<exists>res n sn. search_loop P t mq qs r s = Some res \<and>
           nth_iteration P t mq qs r n s = Some sn \<and> exits_at P t mq qs r sn res"
proof -
  have "\<exists>res. search_loop P t mq qs r s = Some res"
  proof (induction "loop_rank mq s" arbitrary: s rule: less_induct)
    case less
    show ?case
    proof (cases "loop_step P t mq qs r s")
      case (Break s')
      then show ?thesis by (subst search_loop.simps) simp
    next
      case (Raise e)
      then show ?thesis by (subst search_loop.simps) simp
    next
      case (Continue s')
      from loop_rank_decreases[OF r qs ex Continue]
      have "\<exists>res. search_loop P t mq qs r s' = Some res" by (rule less)
      with Continue show ?thesis by (subst search_loop.simps) simp
    qed
  qed
  then obtain res where "search_loop P t mq qs r s = Some res" ..
  with search_loop_Some_iteration[OF this] show ?thesis by blast
qed

text \<open>The amended claim C2 on a 10 by 2 picture with the default parameters.\<close>

theorem search_loop_terminates_witness:
  "(0::rat) < 9/10 \<and> (9/10::rat) < 1 \<and> (1::int) \<le> 5 \<and> pil_resize_exact toy_pil \<and>
   (\<exists>res n sn. search_loop toy_pil 2 30 5 (9/10) (init_state toy_pil (10, 2)) = Some res \<and>
      nth_iteration toy_pil 2 30 5 (9/10) n (init_state toy_pil (10, 2)) = Some sn \<and>
      exits_at toy_pil 2 30 5 (9/10) sn res)"
  using search_loop_terminates[of "9/10" 5 toy_pil 2 30 "init_state toy_pil (10, 2)"] toy_exact
  by simp

subsection \<open>Progress of every pass\<close>

text \<open>
  Claim C3 says that every pass that goes round again lowers the quality or shrinks the
  picture. With a quality step of 0 the pass changes nothing at all.
\<close>

theorem zero_step_no_progress:
  "loop_step toy_pil 0 30 0 (9/10)
     \<lparr>working_img = (2, 2), quality = 95, width = 2, height = 2,
      last_buffer = None, loop_note = Empty\<rparr>
   = Continue
     \<lparr>working_img = (2, 2), quality = 95, width = 2, height = 2,
      last_buffer = None, loop_note = Empty\<rparr>"
  by (simp add: loop_step_def toy_save)

text \<open>
  Claim C3, amended. Let the scale factor be strictly between 0 and 1, the quality step at
  least 1, the resize exact and the decoded picture at least 1 by 1. Of a state the loop
  reaches, a pass that goes round again either lowers the quality, not below the minimum,
  and keeps the sides; or it keeps or lowers the quality, and no side grows, one side
  shrinks, and both stay at least 1. So quality, width and height never increase.
\<close>

theorem step_monotone:
  assumes r: "0 < r" "r < 1" and qs: "1 \<le> qs" and ex: "pil_resize_exact P"
    and dims: "1 \<le> fst (pil_size P img)" "1 \<le> snd (pil_size P img)"
    and reach: "nth_iteration P t mq qs r n (init_state P img) = Some s"
    and step: "loop_step P t mq qs r s = Continue s'"
  shows "(quality s' < quality s \<and> mq \<le> quality s' \<and>
          width s' = width s \<and> height s' = height s) \<or>
         (quality s' \<le> quality s \<and> 1 \<le> width s' \<and> 1 \<le> height s' \<and>
          width s' \<le> width s \<and> height s' \<le> height s \<and>
          (width s' < width s \<or> height s' < height s))"
proof -
  have "sides_positive (init_state P img)"
    using dims by (simp add: sides_positive_def init_state_def)
  from _ this reach have pos: "sides_positive s"
  proof (rule iteration_invariant)
    fix u u' assume "sides_positive u" "loop_step P t mq qs r u = Continue u'"
    then show "sides_positive u'" by (rule sides_positive_step[OF ex])
  qed
  have "min 95 mq \<le> quality (init_state P img)"
    by (simp add: init_state_def)
  from _ this reach have fl: "min 95 mq \<le> quality s"
  proof (rule iteration_invariant)
    fix u u' assume "min 95 mq \<le> quality u" "loop_step P t mq qs r u = Continue u'"
    then show "min 95 mq \<le> quality u'" by (rule quality_floor_step)
  qed
  from loop_step_Continue[OF step] consider
    (lower) "mq < quality s" "s' = s\<lparr>quality := max mq (quality s - qs)\<rparr>"
  | (shrink) resized where "quality s \<le> mq"
      "scale_side (width s) r \<noteq> width s \<or> scale_side (height s) r \<noteq> height s"
      "pil_resize P (working_img s) (scale_side (width s) r, scale_side (height s) r) = Inr resized"
      "s' = s\<lparr>working_img := resized, width := fst (pil_size P resized),
                   height := snd (pil_size P resized), quality := min 95 (max mq (quality s))\<rparr>"
    by blast
  then show ?thesis
  proof cases
    case lower
    then show ?thesis using qs by simp
  next
    case (shrink resized)
    from ex shrink(3)
    have sz: "pil_size P resized = (scale_side (width s) r, scale_side (height s) r)"
      unfolding pil_resize_exact_def by blast
    from pos have w: "scale_side (width s) r \<le> width s"
      and h: "scale_side (height s) r \<le> height s"
      using scale_side_less[OF r] by (simp_all add: sides_positive_def)
    from shrink(1) fl have "quality s' \<le> quality s" using shrink(4) by simp
    with w h shrink(2) sz shrink(4) show ?thesis
      by (simp add: scale_side_ge_1) linarith
  qed
qed

text \<open>The amended claim C3 at the pass that resizes a 10 by 2 picture to 9 by 1.\<close>

theorem step_monotone_witness:
  "(0::rat) < 9/10 \<and> (9/10::rat) < 1 \<and> (1::int) \<le> 5 \<and> pil_resize_exact toy_pil \<and>
   1 \<le> fst (pil_size toy_pil (10, 2)) \<and> 1 \<le> snd (pil_size toy_pil (10, 2)) \<and>
   nth_iteration toy_pil 2 30 5 (9/10) 13 (init_state toy_pil (10, 2)) =
     Some \<lparr>working_img = (10, 2), quality = 30, width = 10, height = 2,
           last_buffer = None, loop_note = Empty\<rparr> \<and>
   loop_step toy_pil 2 30 5 (9/10)
     \<lparr>working_img = (10, 2), quality = 30, width = 10, height = 2,
      last_buffer = None, loop_note = Empty\<rparr> =
   Continue \<lparr>working_img = (9, 1), quality = 30, width = 9, height = 1,
             last_buffer = None, loop_note = Empty\<rparr> \<and>
   (30::int) \<le> 30 \<and> (9::int) \<le> 10 \<and> (1::int) \<le> 2 \<and> ((9::int) < 10 \<or> (1::int) < 2)"
proof -
  have d: "1 \<le> fst (pil_size toy_pil (10, 2))" "1 \<le> snd (pil_size toy_pil (10, 2))"
    by (simp_all add: toy_simps)
  from step_monotone[OF _ _ _ toy_exact d toy_wide_run_13 toy_wide_pass_14]
    toy_exact d toy_wide_run_13 toy_wide_pass_14
  show ?thesis by simp
qed

subsection \<open>The result and the file\<close>

text \<open>
  Claim C4. When \<^verbatim>\<open>_compress_image\<close> returns a result, the file was decoded, the loop
  ended in a state \<open>s\<close>, and the result is what the code after the loop makes of \<open>s\<close>.
  If \<open>s\<close> holds a buffer, the files afterwards are the files before with the path
  overwritten by that buffer, once; \<open>final_size\<close> is the size read back from the file,
  which is the length of the buffer; and \<open>succeeded\<close> holds exactly when \<open>final_size\<close>
  is at most the target. If \<open>s\<close> holds no buffer, the files are unchanged,
  \<open>final_size\<close> is \<open>original_size\<close> and \<open>succeeded\<close> is false.
\<close>

theorem accepted_buffer_written:
  assumes "compress_image P files p t mq qs r = Some (files', Inr res)"
  shows "\<exists>content fmt img s.
           files p = Some content \<and> pil_open P content = Inr (fmt, img) \<and>
           search_loop P t mq qs r (init_state P img) = Some (Inr s) \<and>
           (files', Inr res) = finish files p (int (length content)) (format_or_jpeg fmt) t s \<and>
           original_size res = int (length content) \<and>
           (case last_buffer s of
              Some buf \<Rightarrow>
                files' = files(p \<mapsto> buf) \<and> stat_size files' p = Inr (final_size res) \<and>
                final_size res = int (length buf) \<and> succeeded res = (final_size res \<le> t)
            | None \<Rightarrow>
                files' = files \<and> final_size res = original_size res \<and> \<not> succeeded res)"
  using assms
proof (cases rule: compress_image_cases)
  case (finished content fmt img s)
  show ?thesis
  proof (cases "last_buffer s")
    case None
    from finished(4) finish_None[OF None, of files p "int (length content)" "format_or_jpeg fmt" t]
    have "files' = files \<and> final_size res = original_size res \<and> \<not> succeeded res \<and>
          original_size res = int (length content)"
      by auto
    with finished None show ?thesis by auto
  next
    case (Some buf)
    from finished(4) finish_Some[OF Some, of files p "int (length content)" "format_or_jpeg fmt" t]
    have "files' = files(p \<mapsto> buf) \<and> final_size res = int (length buf) \<and>
          succeeded res = (final_size res \<le> t) \<and> original_size res = int (length content)"
      by auto
    moreover from this have "stat_size files' p = Inr (final_size res)"
      by (simp add: stat_size_def)
    ultimately show ?thesis using finished Some by auto
  qed
qed simp_all

text \<open>Claim C4 on the 2 by 2 picture with target 0: the one-byte buffer is written.\<close>

theorem accepted_buffer_written_witness:
  "compress_image toy_pil toy_files ''b.png'' 0 30 5 (9/10) =
     Some (toy_files(''b.png'' \<mapsto> [0]),
           Inr \<lparr>path = ''b.png'', original_size = 2, final_size = 1, succeeded = False,
                res_note = CannotCompressFurther\<rparr>) \<and>
   (\<exists>content fmt img s.
           toy_files ''b.png'' = Some content \<and> pil_open toy_pil content = Inr (fmt, img) \<and>
           search_loop toy_pil 0 30 5 (9/10) (init_state toy_pil img) = Some (Inr s) \<and>
           (case last_buffer s of
              Some buf \<Rightarrow> toy_files(''b.png'' \<mapsto> [0]) = toy_files(''b.png'' \<mapsto> buf) \<and> 1 = int (length buf)
            | None \<Rightarrow> False))"
proof -
  from accepted_buffer_written[OF toy_compress_image] obtain content fmt img s
    where a: "toy_files ''b.png'' = Some content" "pil_open toy_pil content = Inr (fmt, img)"
      "search_loop toy_pil 0 30 5 (9/10) (init_state toy_pil img) = Some (Inr s)"
    and b: "(case last_buffer s of
              Some buf \<Rightarrow>
                toy_files(''b.png'' \<mapsto> [0]) = toy_files(''b.png'' \<mapsto> buf) \<and>
                1 = int (length buf)
            | None \<Rightarrow> False)"
    by (auto split: option.splits)
  then show ?thesis using toy_compress_image by blast
qed

subsection \<open>The quality after a resize\<close>

text \<open>
  Claim C6 says that the quality set after a resize restores headroom for another round
  of quality reduction, and the comment in the source says that the quality is raised
  again. The branch is only entered with the quality at or below the minimum, so
  \<open>min 95 (max min_quality quality)\<close> is at most the minimum and nothing is raised.
  On a 10 by 2 picture with target 2 and the default parameters the quality is 30 after
  13 passes; pass 14 resizes to 9 by 1 and leaves the quality at 30, and pass 15 resizes
  again, to 8 by 1, without any pass that lowers the quality in between.
\<close>

theorem resize_keeps_minimum_quality:
  "nth_iteration toy_pil 2 30 5 (9/10) 13 (init_state toy_pil (10, 2)) =
     Some \<lparr>working_img = (10, 2), quality = 30, width = 10, height = 2,
           last_buffer = None, loop_note = Empty\<rparr> \<and>
   nth_iteration toy_pil 2 30 5 (9/10) 14 (init_state toy_pil (10, 2)) =
     Some \<lparr>working_img = (9, 1), quality = 30, width = 9, height = 1,
           last_buffer = None, loop_note = Empty\<rparr> \<and>
   nth_iteration toy_pil 2 30 5 (9/10) 15 (init_state toy_pil (10, 2)) =
     Some \<lparr>working_img = (8, 1), quality = 30, width = 8, height = 1,
           last_buffer = None, loop_note = Empty\<rparr>"
  by (simp add: eval_nat_numeral toy_eval)

subsection \<open>The note\<close>

text \<open>
  Claim C7. In a result that \<^verbatim>\<open>_compress_image\<close> returns, the note left by the loop
  is empty or the cannot-compress-further note. A note of the loop is kept, with the
  final size appended when the result succeeded. Without one, a result that did not
  succeed gets the still-over-target note. Only when neither note was set and the format
  (\<^verbatim>\<open>JPEG\<close> if missing, compared in upper case) is not \<^verbatim>\<open>JPEG\<close> is the note the
  format-conversion note; and the note is a format-conversion note in exactly that case.
\<close>

theorem note_precedence:
  assumes "compress_image P files p t mq qs r = Some (files', Inr res)"
  shows "\<exists>content fmt img s.
           files p = Some content \<and> pil_open P content = Inr (fmt, img) \<and>
           search_loop P t mq qs r (init_state P img) = Some (Inr s) \<and>
           (loop_note s = Empty \<or> loop_note s = CannotCompressFurther) \<and>
           res_note res =
             (if loop_note s \<noteq> Empty then
                (if succeeded res then WithFinalSize (loop_note s) (final_size res)
                 else loop_note s)
              else if \<not> succeeded res then StillOverTarget
              else if upper (format_or_jpeg fmt) \<noteq> ''JPEG''
                then FormatConverted (format_or_jpeg fmt)
              else Empty) \<and>
           ((\<exists>f. res_note res = FormatConverted f) =
              (upper (format_or_jpeg fmt) \<noteq> ''JPEG'' \<and> loop_note s = Empty \<and> succeeded res))"
  using assms
proof (cases rule: compress_image_cases)
  case (finished content fmt img s)
  from search_loop_exit[OF finished(3)] obtain buf
    where buf: "last_buffer s = Some buf"
      and n: "loop_note s = Empty \<or> loop_note s = CannotCompressFurther"
    by (auto simp: init_state_def)
  from finished(4) finish_Some[OF buf, of files p "int (length content)" "format_or_jpeg fmt" t]
  have res: "res = \<lparr>path = p, original_size = int (length content), final_size = int (length buf),
           succeeded = (int (length buf) \<le> t),
           res_note =
             (if loop_note s \<noteq> Empty then
                (if int (length buf) \<le> t then WithFinalSize (loop_note s) (int (length buf))
                 else loop_note s)
              else if \<not> int (length buf) \<le> t then StillOverTarget
              else if upper (format_or_jpeg fmt) \<noteq> ''JPEG'' then FormatConverted (format_or_jpeg fmt)
              else Empty)\<rparr>"
    by simp
  have "res_note res =
             (if loop_note s \<noteq> Empty then
                (if succeeded res then WithFinalSize (loop_note s) (final_size res)
                 else loop_note s)
              else if \<not> succeeded res then StillOverTarget
              else if upper (format_or_jpeg fmt) \<noteq> ''JPEG''
                then FormatConverted (format_or_jpeg fmt)
              else Empty)"
    by (simp add: res)
  moreover from this n have "(\<exists>f. res_note res = FormatConverted f) =
              (upper (format_or_jpeg fmt) \<noteq> ''JPEG'' \<and> loop_note s = Empty \<and> succeeded res)"
    by auto
  ultimately show ?thesis using finished(1,2,3) n by blast
qed simp_all

text \<open>Claim C7 on a PNG picture that fits at once: the note reports the conversion.\<close>

theorem note_precedence_witness:
  "compress_image toy_pil toy_files ''b.png'' 4 30 5 (9/10) =
     Some (toy_files(''b.png'' \<mapsto> [0, 0, 0, 0]),
           Inr \<lparr>path = ''b.png'', original_size = 2, final_size = 4, succeeded = True,
                res_note = FormatConverted ''PNG''\<rparr>) \<and>
   (\<exists>fmt s. pil_open toy_pil [0, 0] = Inr (fmt, (2, 2)) \<and>
      search_loop toy_pil 4 30 5 (9/10) (init_state toy_pil (2, 2)) = Some (Inr s) \<and>
      upper (format_or_jpeg fmt) \<noteq> ''JPEG'' \<and> loop_note s = Empty)"
proof -
  have f: "toy_files ''b.png'' = Some [0, 0]" by (simp add: toy_files_def)
  from note_precedence[OF toy_compress_image_fits] obtain content fmt img s
    where a: "toy_files ''b.png'' = Some content" "pil_open toy_pil content = Inr (fmt, img)"
      "search_loop toy_pil 4 30 5 (9/10) (init_state toy_pil img) = Some (Inr s)"
      and b: "upper (format_or_jpeg fmt) \<noteq> ''JPEG'' \<and> loop_note s = Empty"
    by auto
  from a(1) f have c: "content = [0, 0]" by simp
  with a(2) have "img = (2, 2)" by (simp add: toy_simps)
  with a b c toy_compress_image_fits show ?thesis by blast
qed

subsection \<open>A picture that fits at once\<close>

text \<open>
  Claim C8. When the first encoding, at quality 95 of the decoded picture, is at most
  the target, the loop ends after that pass with the state it started in but for the
  buffer (so the working picture, its width and its height are the original ones), and
  \<^verbatim>\<open>_compress_image\<close> writes the buffer and returns a result that succeeded, with
  \<open>final_size\<close> the length of the buffer, at most the target.
\<close>

theorem first_encode_fits:
  assumes present: "files p = Some content"
    and opened: "pil_open P content = Inr (fmt, img)"
    and enc: "save_to_buffer P img ''JPEG'' 95 = Inr buf"
    and fits: "int (length buf) \<le> t"
  shows "search_loop P t mq qs r (init_state P img) =
           Some (Inr ((init_state P img)\<lparr>last_buffer := Some buf\<rparr>)) \<and>
         (\<exists>res. compress_image P files p t mq qs r = Some (files(p \<mapsto> buf), Inr res) \<and>
                succeeded res \<and> final_size res = int (length buf) \<and> final_size res \<le> t)"
proof -
  have "loop_step P t mq qs r (init_state P img) = Break ((init_state P img)\<lparr>last_buffer := Some buf\<rparr>)"
    using enc fits by (simp add: loop_step_def init_state_def)
  then have loop: "search_loop P t mq qs r (init_state P img) =
           Some (Inr ((init_state P img)\<lparr>last_buffer := Some buf\<rparr>))"
    by (subst search_loop.simps) simp
  have "last_buffer ((init_state P img)\<lparr>last_buffer := Some buf\<rparr>) = Some buf" by simp
  note fin = finish_Some[OF this, of files p "int (length content)" "format_or_jpeg fmt" t]
  from present opened loop fin fits
  have "\<exists>res. compress_image P files p t mq qs r = Some (files(p \<mapsto> buf), Inr res) \<and>
                succeeded res \<and> final_size res = int (length buf) \<and> final_size res \<le> t"
    by (simp add: compress_image_def stat_size_def)
  with loop show ?thesis by blast
qed

text \<open>Claim C8 on the 2 by 2 picture, whose first encoding has 4 bytes, with target 4.\<close>

theorem first_encode_fits_witness:
  "toy_files ''b.png'' = Some [0, 0] \<and> pil_open toy_pil [0, 0] = Inr (Some ''PNG'', (2, 2)) \<and>
   save_to_buffer toy_pil (2, 2) ''JPEG'' 95 = Inr [0, 0, 0, 0] \<and>
   int (length [0::8 word, 0, 0, 0]) \<le> 4 \<and>
   search_loop toy_pil 4 30 5 (9/10) (init_state toy_pil (2, 2)) =
     Some (Inr \<lparr>working_img = (2, 2), quality = 95, width = 2, height = 2,
                last_buffer = Some [0, 0, 0, 0], loop_note = Empty\<rparr>) \<and>
   (\<exists>res. compress_image toy_pil toy_files ''b.png'' 4 30 5 (9/10) =
            Some (toy_files(''b.png'' \<mapsto> [0, 0, 0, 0]), Inr res) \<and>
          succeeded res \<and> final_size res = 4)"
proof -
  have f: "toy_files ''b.png'' = Some [0, 0]" by (simp add: toy_files_def)
  have o: "pil_open toy_pil [0, 0] = Inr (Some ''PNG'', (2, 2))" by (simp add: toy_simps)
  have e: "save_to_buffer toy_pil (2, 2) ''JPEG'' 95 = Inr [0, 0, 0, 0]"
    by (simp add: toy_save eval_nat_numeral)
  have l: "int (length [0::8 word, 0, 0, 0]) \<le> 4" by simp
  from first_encode_fits[where files = toy_files and p = "''b.png''" and mq = 30 and qs = 5
      and r = "9/10", OF f o e l] f o e
  show ?thesis by (auto simp: init_state_def toy_simps)
qed

subsection \<open>The branch without a buffer\<close>

text \<open>
  Claim C9. A loop that ends by \<^verbatim>\<open>break\<close>, started in any state, ends with a buffer in
  \<open>last_buffer\<close>; and no result that \<^verbatim>\<open>_compress_image\<close> returns carries the
  unknown-problem note, which only the branch for a missing buffer assigns.
\<close>

theorem unknown_problem_unreachable:
  "(search_loop P t mq qs r s = Some (Inr s') \<longrightarrow> last_buffer s' \<noteq> None) \<and>
   (compress_image P files p t mq qs r = Some (files', Inr res) \<longrightarrow>
      res_note res \<noteq> UnknownProblem)"
proof (intro conjI impI)
  assume "search_loop P t mq qs r s = Some (Inr s')"
  from search_loop_exit[OF this] show "last_buffer s' \<noteq> None" by simp
next
  assume "compress_image P files p t mq qs r = Some (files', Inr res)"
  then show "res_note res \<noteq> UnknownProblem"
  proof (cases rule: compress_image_cases)
    case (finished content fmt img u)
    from search_loop_exit[OF finished(3)] obtain buf
      where buf: "last_buffer u = Some buf"
        and n: "loop_note u = Empty \<or> loop_note u = CannotCompressFurther"
      by (auto simp: init_state_def)
    from finished(4) finish_Some[OF buf, of files p "int (length content)" "format_or_jpeg fmt" t] n
    show ?thesis by (auto split: if_splits)
  qed simp_all
qed

text \<open>Claim C9 on the 2 by 2 picture with target 0.\<close>

theorem unknown_problem_unreachable_witness:
  "search_loop toy_pil 0 30 5 (9/10) (init_state toy_pil (2, 2)) =
     Some (Inr \<lparr>working_img = (1, 1), quality = 30, width = 1, height = 1,
                last_buffer = Some [0], loop_note = CannotCompressFurther\<rparr>) \<and>
   Some [0::8 word] \<noteq> None \<and>
   compress_image toy_pil toy_files ''b.png'' 0 30 5 (9/10) =
     Some (toy_files(''b.png'' \<mapsto> [0]),
           Inr \<lparr>path = ''b.png'', original_size = 2, final_size = 1, succeeded = False,
                res_note = CannotCompressFurther\<rparr>) \<and>
   CannotCompressFurther \<noteq> UnknownProblem"
  using unknown_problem_unreachable[of toy_pil 0 30 5 "9/10" "init_state toy_pil (2, 2)"
      "\<lparr>working_img = (1, 1), quality = 30, width = 1, height = 1,
                last_buffer = Some [0], loop_note = CannotCompressFurther\<rparr>"
      toy_files "''b.png''" "toy_files(''b.png'' \<mapsto> [0])"
      "\<lparr>path = ''b.png'', original_size = 2, final_size = 1, succeeded = False,
                res_note = CannotCompressFurther\<rparr>"]
    toy_search_loop toy_compress_image
  by simp

subsection \<open>The range of the quality\<close>

text \<open>
  Claim C10 bounds the quality by 95 whenever the minimum quality is between 1 and 95.
  The quality step is subtracted as it is: with a step of -5 the first pass raises the
  quality from 95 to 100.
\<close>

theorem negative_step_exceeds_95:
  "map_option quality (nth_iteration toy_pil 0 30 (-5) (9/10) 1 (init_state toy_pil (2, 2)))
     = Some 100"
  by (simp add: toy_eval)

text \<open>
  Claim C10, amended. With a minimum quality of at most 95 and a quality step that is not
  negative, the quality is between the minimum and 95 in every state the loop reaches
  from its start.
\<close>

theorem quality_in_range:
  assumes "mq \<le> 95" and "0 \<le> qs"
    and reach: "nth_iteration P t mq qs r n (init_state P img) = Some s"
  shows "mq \<le> quality s \<and> quality s \<le> 95"
proof -
  have "mq \<le> quality (init_state P img) \<and> quality (init_state P img) \<le> 95"
    using assms(1) by (simp add: init_state_def)
  from _ this reach show ?thesis
  proof (rule iteration_invariant)
    fix u u'
    assume "mq \<le> quality u \<and> quality u \<le> 95" "loop_step P t mq qs r u = Continue u'"
    then show "mq \<le> quality u' \<and> quality u' \<le> 95"
      by (rule quality_range_step[OF assms(1,2)])
  qed
qed

text \<open>The amended claim C10 after 13 passes on the 10 by 2 picture.\<close>

theorem quality_in_range_witness:
  "(30::int) \<le> 95 \<and> (0::int) \<le> 5 \<and>
   nth_iteration toy_pil 2 30 5 (9/10) 13 (init_state toy_pil (10, 2)) =
     Some \<lparr>working_img = (10, 2), quality = 30, width = 10, height = 2,
           last_buffer = None, loop_note = Empty\<rparr> \<and>
   (30::int) \<le> 30 \<and> (30::int) \<le> 95"
  using quality_in_range[OF _ _ toy_wide_run_13] toy_wide_run_13 by simp

end
